theory Spec2Isabelle
  imports Main "HOL-Library.Word"
begin

section \<open>JavaScript strings and the string methods the scanner calls\<close>

text \<open>
  A JavaScript string is a sequence of 16-bit code units. String literals of the source are
  written \<open>js ''...''\<close>; the line feed of \<^verbatim>\<open>'\n'\<close> is the code unit 10 and
  the null character of \<^verbatim>\<open>'\0'\<close> is the code unit 0.
\<close>

type_synonym jschar = "16 word"
type_synonym jsstring = "jschar list"

definition js :: "string \<Rightarrow> jsstring" where
  "js s = map of_char s"

definition slash :: jschar where
  "slash = of_char (CHR ''/'')"

definition equals_sign :: jschar where
  "equals_sign = of_char (CHR ''='')"

definition line_feed :: jschar where
  "line_feed = 10"

definition null_char :: jschar where
  "null_char = 0"

text \<open>\<^verbatim>\<open>s.startsWith(p)\<close>.\<close>

fun startsWith :: "jsstring \<Rightarrow> jsstring \<Rightarrow> bool" where
  "startsWith s [] = True"
| "startsWith [] (p # ps) = False"
| "startsWith (c # cs) (p # ps) = (c = p \<and> startsWith cs ps)"

text \<open>\<^verbatim>\<open>s.includes(sub)\<close>: \<open>sub\<close> starts at some position of \<open>s\<close>.\<close>

fun includes_js :: "jsstring \<Rightarrow> jsstring \<Rightarrow> bool" where
  "includes_js [] sub = startsWith [] sub"
| "includes_js (c # cs) sub = (startsWith (c # cs) sub \<or> includes_js cs sub)"

text \<open>
  \<^verbatim>\<open>s.split(sep)\<close> for a separator of one code unit (the source splits on
  \<^verbatim>\<open>'/'\<close>, \<^verbatim>\<open>'\n'\<close> and \<^verbatim>\<open>'='\<close> only). \<open>split_from\<close> carries the
  piece read so far; the result always has at least one piece.
\<close>

fun split_from :: "jschar \<Rightarrow> jsstring \<Rightarrow> jsstring \<Rightarrow> jsstring list" where
  "split_from sep cur [] = [cur]"
| "split_from sep cur (c # cs) =
     (if c = sep then cur # split_from sep [] cs else split_from sep (cur @ [c]) cs)"

definition split :: "jschar \<Rightarrow> jsstring \<Rightarrow> jsstring list" where
  "split sep s = split_from sep [] s"

text \<open>
  \<^verbatim>\<open>s.trim()\<close> removes leading and trailing white space and line terminators
  (ECMAScript WhiteSpace and LineTerminator code points).
\<close>

definition isWhiteSpace :: "jschar \<Rightarrow> bool" where
  "isWhiteSpace c =
     (c \<in> set [0x0009, 0x000A, 0x000B, 0x000C, 0x000D, 0x0020, 0x00A0, 0x1680,
               0x2000, 0x2001, 0x2002, 0x2003, 0x2004, 0x2005, 0x2006, 0x2007,
               0x2008, 0x2009, 0x200A, 0x2028, 0x2029, 0x202F, 0x205F, 0x3000, 0xFEFF])"

definition trim :: "jsstring \<Rightarrow> jsstring" where
  "trim s = rev (dropWhile isWhiteSpace (rev (dropWhile isWhiteSpace s)))"

text \<open>\<^verbatim>\<open>xs[i]\<close> on an array: \<^verbatim>\<open>undefined\<close> (here \<open>None\<close>) out of range.\<close>

definition index :: "'a list \<Rightarrow> nat \<Rightarrow> 'a option" where
  "index xs i = (if i < length xs then Some (xs ! i) else None)"

section \<open>Exceptions, directory entries and the collaborators of the scanner\<close>

text \<open>
  A thrown value, as far as the source observes it: whether it is an \<^verbatim>\<open>Error\<close>
  object, its \<^verbatim>\<open>message\<close>, and its conversion to a string
  (\<^verbatim>\<open>`${e}`\<close>, \<^verbatim>\<open>String(e)\<close>).
\<close>

datatype js_exn = Thrown (instanceof_Error: bool) (message: jsstring) (to_string: jsstring)

text \<open>Calling \<^verbatim>\<open>trim\<close> on \<^verbatim>\<open>undefined\<close>.\<close>

definition TypeError_undefined_trim :: js_exn where
  "TypeError_undefined_trim =
     Thrown True (js ''Cannot read properties of undefined (reading 'trim')'')
       (js ''TypeError: Cannot read properties of undefined (reading 'trim')'')"

record dirent =
  name :: jsstring
  isDirectory :: bool

text \<open>
  What \<^verbatim>\<open>detectVenv\<close> calls and does not define: the workspace-root resolver of
  \<^verbatim>\<open>common/helpers\<close>, Node's \<^verbatim>\<open>fs\<close> (a listing or a read either throws or
  returns; \<^verbatim>\<open>existsSync\<close> never throws) and Node's \<^verbatim>\<open>path.join\<close>. They are
  parameters of the model; the file system is not changed during one scan.
\<close>

record env =
  getWorkspaceFolderPath :: "js_exn + jsstring"
  readdirSync :: "jsstring \<Rightarrow> js_exn + dirent list"
  existsSync :: "jsstring \<Rightarrow> bool"
  readFileSync :: "jsstring \<Rightarrow> js_exn + jsstring"
  path_join :: "jsstring list \<Rightarrow> jsstring"

datatype log_entry = ConsoleWarn jsstring | ConsoleError jsstring

text \<open>The mutable state of one call: the array \<^verbatim>\<open>foundVenvs\<close> and the console.\<close>

record scan_state =
  foundVenvs :: "jsstring list list"
  console :: "log_entry list"

section \<open>detectVenv\<close>

text \<open>Lines 27-29: the names of the directory entries of a listing.\<close>

definition subdirectories :: "dirent list \<Rightarrow> jsstring list" where
  "subdirectories ents = map name (filter isDirectory ents)"

text \<open>
  Lines 32-41, the callback of \<^verbatim>\<open>flatMap\<close>: the depth-2 names under one depth-1
  directory, or no name and one warning when the listing throws.
\<close>

definition list_subdir :: "env \<Rightarrow> jsstring \<Rightarrow> jsstring \<Rightarrow> jsstring list \<times> log_entry list" where
  "list_subdir e workspacePath subdir =
     (case readdirSync e (path_join e [workspacePath, subdir]) of
        Inr ents \<Rightarrow> (map (\<lambda>d. subdir @ js ''/'' @ name d) (filter isDirectory ents), [])
      | Inl ex \<Rightarrow>
          ([], [ConsoleWarn (js ''[Warning] Failed to read '' @ subdir @ js '': '' @ to_string ex)]))"

text \<open>Line 31: \<^verbatim>\<open>flatMap\<close> over the depth-1 names, in order, with the warnings it logs.\<close>

fun subSubdirectories :: "env \<Rightarrow> jsstring \<Rightarrow> jsstring list \<Rightarrow> jsstring list \<times> log_entry list" where
  "subSubdirectories e workspacePath [] = ([], [])"
| "subSubdirectories e workspacePath (subdir # rest) =
     (case list_subdir e workspacePath subdir of
        (names, warns) \<Rightarrow>
          (case subSubdirectories e workspacePath rest of
             (names', warns') \<Rightarrow> (names @ names', warns @ warns')))"

text \<open>Line 43.\<close>

definition allDirsToCheck :: "env \<Rightarrow> jsstring \<Rightarrow> dirent list \<Rightarrow> jsstring list" where
  "allDirsToCheck e workspacePath ents =
     subdirectories ents @ fst (subSubdirectories e workspacePath (subdirectories ents))"

text \<open>Lines 46-51.\<close>

definition isPathSafe :: "jsstring \<Rightarrow> bool" where
  "isPathSafe pathSegment =
     (if pathSegment = [] \<or> length pathSegment = 0 then False
      else if includes_js pathSegment (js ''..'') \<or> includes_js pathSegment [null_char] then False
      else if pathSegment = js ''.'' \<or> startsWith pathSegment (js ''/'') then False
      else True)"

text \<open>Line 60-61: the path of the marker file of a candidate.\<close>

definition activatePath :: "env \<Rightarrow> jsstring \<Rightarrow> jsstring \<Rightarrow> jsstring" where
  "activatePath e workspacePath dir =
     path_join e [path_join e [workspacePath, dir, js ''bin''], js ''ruyi-activate'']"

text \<open>Lines 65-66: the first line of the content that includes the key.\<close>

definition promptLine :: "jsstring \<Rightarrow> jsstring option" where
  "promptLine activateContent =
     List.find (\<lambda>line. includes_js line (js ''RUYI_VENV_PROMPT='')) (split line_feed activateContent)"

text \<open>
  Lines 54-70, the body of the \<^verbatim>\<open>for\<close> loop for one candidate: the new state, or the
  exception that leaves the loop (a failing read, or \<^verbatim>\<open>trim\<close> on a missing piece).
  An empty string is falsy in \<^verbatim>\<open>if (promptLine)\<close>.
\<close>

definition check_dir :: "env \<Rightarrow> jsstring \<Rightarrow> jsstring \<Rightarrow> scan_state \<Rightarrow> js_exn + scan_state" where
  "check_dir e workspacePath dir st =
     (let segments = split slash dir in
      if \<not> list_all isPathSafe segments
      then Inr (st\<lparr>console := console st @ [ConsoleWarn (js ''Skipping unsafe path: '' @ dir)]\<rparr>)
      else if existsSync e (activatePath e workspacePath dir)
      then (case readFileSync e (activatePath e workspacePath dir) of
              Inl ex \<Rightarrow> Inl ex
            | Inr activateContent \<Rightarrow>
                (case promptLine activateContent of
                   None \<Rightarrow> Inr st
                 | Some line \<Rightarrow>
                     if line = [] then Inr st
                     else (case index (split equals_sign line) 1 of
                             None \<Rightarrow> Inl TypeError_undefined_trim
                           | Some piece \<Rightarrow>
                               Inr (st\<lparr>foundVenvs := foundVenvs st @ [[dir, trim piece]]\<rparr>))))
      else Inr st)"

text \<open>
  Line 53, the \<^verbatim>\<open>for\<close> loop: it ends normally, or at the first candidate whose body
  throws, with the state reached so far.
\<close>

fun for_dirs :: "env \<Rightarrow> jsstring \<Rightarrow> jsstring list \<Rightarrow> scan_state \<Rightarrow> js_exn option \<times> scan_state" where
  "for_dirs e workspacePath [] st = (None, st)"
| "for_dirs e workspacePath (dir # dirs) st =
     (case check_dir e workspacePath dir st of
        Inl ex \<Rightarrow> (Some ex, st)
      | Inr st' \<Rightarrow> for_dirs e workspacePath dirs st')"

text \<open>Lines 25-71, the body of the \<^verbatim>\<open>try\<close> block.\<close>

definition try_block :: "env \<Rightarrow> scan_state \<Rightarrow> js_exn option \<times> scan_state" where
  "try_block e st =
     (case getWorkspaceFolderPath e of
        Inl ex \<Rightarrow> (Some ex, st)
      | Inr workspacePath \<Rightarrow>
          (case readdirSync e workspacePath of
             Inl ex \<Rightarrow> (Some ex, st)
           | Inr ents \<Rightarrow>
               for_dirs e workspacePath (allDirsToCheck e workspacePath ents)
                 (st\<lparr>console := console st @
                    snd (subSubdirectories e workspacePath (subdirectories ents))\<rparr>)))"

text \<open>
  Lines 21-78. The result is what the caller gets: \<open>Inr\<close> the returned array together with
  the console output of the call, \<open>Inl\<close> an exception that escapes.
\<close>

definition detectVenv :: "env \<Rightarrow> js_exn + jsstring list list \<times> log_entry list" where
  "detectVenv e =
     (case try_block e \<lparr>foundVenvs = [], console = []\<rparr> of
        (None, st) \<Rightarrow> Inr (foundVenvs st, console st)
      | (Some ex, st) \<Rightarrow>
          Inr (foundVenvs st,
               console st @ [ConsoleError (js ''[Error] Failed to detect venvs: '' @ to_string ex)]))"

section \<open>The command ruyi.venv.clean\<close>

text \<open>The item the user picked, as \<^verbatim>\<open>ruyi.venv.detect\<close> resolves it.\<close>

record quick_pick_item =
  label :: jsstring
  description :: jsstring
  rawPath :: jsstring

text \<open>
  What the handler calls beyond the collaborators above: the command
  \<^verbatim>\<open>ruyi.venv.detect\<close> (it rejects, or resolves to an item or to
  \<^verbatim>\<open>undefined\<close>), the variable \<^verbatim>\<open>currentVenv\<close> of
  \<^verbatim>\<open>manageTerminal\<close> (a string, or \<open>None\<close> when it holds no string), the button the
  user chooses in the modal warning, and \<^verbatim>\<open>stat\<close> and \<^verbatim>\<open>delete\<close> of
  \<^verbatim>\<open>vscode.workspace.fs\<close>, each of which either resolves or rejects.
\<close>

record workflow_env = env +
  executeCommand_detect :: "js_exn + quick_pick_item option"
  currentVenv :: "jsstring option"
  showWarningMessage :: "jsstring \<Rightarrow> jsstring option"
  fs_stat :: "jsstring \<Rightarrow> js_exn option"
  fs_delete :: "jsstring \<Rightarrow> js_exn option"

text \<open>
  The calls the handler makes to the editor, in order. \<open>FsDelete p\<close> is the call
  \<^verbatim>\<open>fs.delete(Uri.file(p), { recursive: true, useTrash: false })\<close>.
\<close>

datatype ui_event =
    ShowErrorMessage jsstring
  | ShowWarningMessage jsstring
  | ShowInformationMessage jsstring
  | FsStat jsstring
  | FsDelete jsstring

text \<open>Lines 57-64, the \<^verbatim>\<open>catch\<close> block.\<close>

definition failed_to_delete :: "js_exn \<Rightarrow> ui_event" where
  "failed_to_delete error =
     (if instanceof_Error error
      then ShowErrorMessage (js ''Failed to delete venv: '' @ message error)
      else ShowErrorMessage (js ''Failed to delete venv: '' @ to_string error))"

text \<open>Lines 40-64, run after the user chose \<^verbatim>\<open>Delete\<close>.\<close>

definition delete_venv :: "workflow_env \<Rightarrow> jsstring \<Rightarrow> ui_event list" where
  "delete_venv w venvPath =
     (case getWorkspaceFolderPath w of
        Inl error \<Rightarrow> [failed_to_delete error]
      | Inr workspacePath \<Rightarrow>
          (let cleanPath = (if startsWith venvPath (js ''./'') then drop 2 venvPath else venvPath);
               absolutePath = path_join w [workspacePath, cleanPath]
           in case fs_stat w absolutePath of
                Some error \<Rightarrow> [FsStat absolutePath, failed_to_delete error]
              | None \<Rightarrow>
                  (case fs_delete w absolutePath of
                     Some error \<Rightarrow>
                       [FsStat absolutePath, FsDelete absolutePath, failed_to_delete error]
                   | None \<Rightarrow>
                       [FsStat absolutePath, FsDelete absolutePath,
                        ShowInformationMessage
                          (js ''Ruyi venv at '' @ absolutePath @ js '' has been deleted.'')])))"

text \<open>
  Lines 20-66, the handler of the command: the exception it rejects with, if any, and the
  calls it made.
\<close>

definition clean_command :: "workflow_env \<Rightarrow> js_exn option \<times> ui_event list" where
  "clean_command w =
     (case executeCommand_detect w of
        Inl ex \<Rightarrow> (Some ex, [])
      | Inr None \<Rightarrow> (None, [])
      | Inr (Some pickedVenv) \<Rightarrow>
          (let venvPath = js ''./'' @ rawPath pickedVenv in
           if currentVenv w = Some venvPath
           then (None,
                 [ShowErrorMessage
                    (js ''Cannot delete the currently active Ruyi venv. Please deactivate it first.'')])
           else
             (let question =
                    js ''Are you sure you want to delete the Ruyi venv at '' @ venvPath
                      @ js ''? This action cannot be undone.''
              in if showWarningMessage w question = Some (js ''Delete'')
                 then (None, ShowWarningMessage question # delete_venv w venvPath)
                 else (None, [ShowWarningMessage question]))))"

section \<open>Example workspaces\<close>

text \<open>\<^verbatim>\<open>path.join\<close> on arguments that need no normalisation.\<close>

fun join_segments :: "jsstring list \<Rightarrow> jsstring" where
  "join_segments [] = js ''.''"
| "join_segments [p] = p"
| "join_segments (p # q # ps) = p @ js ''/'' @ join_segments (q # ps)"

definition EACCES :: js_exn where
  "EACCES = Thrown True (js ''EACCES: permission denied'') (js ''Error: EACCES: permission denied'')"


definition ENOENT :: js_exn where
  "ENOENT = Thrown True (js ''ENOENT: no such file or directory'')
     (js ''Error: ENOENT: no such file or directory'')"

definition no_workspace :: js_exn where
  "no_workspace = Thrown True (js ''No workspace folder is open'')
     (js ''Error: No workspace folder is open'')"

definition dir_entry :: "string \<Rightarrow> dirent" where
  "dir_entry n = \<lparr>name = js n, isDirectory = True\<rparr>"

definition file_entry :: "string \<Rightarrow> dirent" where
  "file_entry n = \<lparr>name = js n, isDirectory = False\<rparr>"

text \<open>
  A workspace \<^verbatim>\<open>/ws\<close> with the directories \<^verbatim>\<open>proj\<close> (holding the environment
  \<^verbatim>\<open>venvA\<close>, the plain directory \<^verbatim>\<open>venvB\<close> and a file), \<^verbatim>\<open>locked\<close> (its
  listing is denied), \<^verbatim>\<open>a..b\<close> and \<^verbatim>\<open>env1\<close> (an environment), and a file.
\<close>

definition demo_readdir :: "jsstring \<Rightarrow> js_exn + dirent list" where
  "demo_readdir p =
     (if p = js ''/ws''
      then Inr [dir_entry ''proj'', dir_entry ''locked'', file_entry ''README.md'',
                dir_entry ''a..b'', dir_entry ''env1'']
      else if p = js ''/ws/proj''
      then Inr [dir_entry ''venvA'', file_entry ''notes.txt'', dir_entry ''venvB'']
      else if p = js ''/ws/locked'' then Inl EACCES
      else if p = js ''/ws/a..b'' then Inr []
      else if p = js ''/ws/env1'' then Inr [dir_entry ''bin'']
      else Inl ENOENT)"

definition demo_exists :: "jsstring \<Rightarrow> bool" where
  "demo_exists p =
     (p = js ''/ws/proj/venvA/bin/ruyi-activate'' \<or> p = js ''/ws/env1/bin/ruyi-activate'')"

definition demo_read :: "jsstring \<Rightarrow> js_exn + jsstring" where
  "demo_read p =
     (if p = js ''/ws/proj/venvA/bin/ruyi-activate''
      then Inr (js ''# activate'' @ [line_feed] @ js ''RUYI_VENV_PROMPT=  spaced  '' @ [line_feed])
      else if p = js ''/ws/env1/bin/ruyi-activate''
      then Inr (js ''RUYI_VENV_PROMPT=myenv'' @ [line_feed])
      else Inl ENOENT)"

definition demo_env :: env where
  "demo_env =
     \<lparr>getWorkspaceFolderPath = Inr (js ''/ws''), readdirSync = demo_readdir,
      existsSync = demo_exists, readFileSync = demo_read, path_join = join_segments\<rparr>"

text \<open>
  A workspace whose only directory \<^verbatim>\<open>venv\<close> has a marker file with the given content.
\<close>

definition one_venv_readdir :: "jsstring \<Rightarrow> js_exn + dirent list" where
  "one_venv_readdir p =
     (if p = js ''/ws'' then Inr [dir_entry ''venv'']
      else if p = js ''/ws/venv'' then Inr [dir_entry ''bin'']
      else Inl ENOENT)"

definition one_venv_env :: "jsstring \<Rightarrow> env" where
  "one_venv_env content =
     \<lparr>getWorkspaceFolderPath = Inr (js ''/ws''), readdirSync = one_venv_readdir,
      existsSync = (\<lambda>p. p = js ''/ws/venv/bin/ruyi-activate''),
      readFileSync = (\<lambda>p. if p = js ''/ws/venv/bin/ruyi-activate'' then Inr content else Inl ENOENT),
      path_join = join_segments\<rparr>"




text \<open>A workspace whose root cannot be listed, and a session without a workspace.\<close>

definition unlistable_env :: env where
  "unlistable_env = demo_env\<lparr>readdirSync := (\<lambda>p. Inl EACCES)\<rparr>"

definition no_workspace_env :: env where
  "no_workspace_env = demo_env\<lparr>getWorkspaceFolderPath := Inl no_workspace\<rparr>"

text \<open>A listing that differs from the example workspace only below depth 2.\<close>

definition deeper_readdir :: "jsstring \<Rightarrow> js_exn + dirent list" where
  "deeper_readdir p =
     (if p = js ''/ws/proj/venvA'' then Inr [dir_entry ''nested'']
      else if p = js ''/ws/proj/venvA/nested'' then Inr [dir_entry ''bin'']
      else demo_readdir p)"

text \<open>
  A session in which the environment \<^verbatim>\<open>proj/venvA\<close> is active, the user picks it and
  would confirm the deletion.
\<close>

definition active_session :: workflow_env where
  "active_session =
     \<lparr>getWorkspaceFolderPath = Inr (js ''/ws''), readdirSync = demo_readdir,
      existsSync = demo_exists, readFileSync = demo_read, path_join = join_segments,
      executeCommand_detect =
        Inr (Some \<lparr>label = js ''spaced'', description = js ''proj/venvA'', rawPath = js ''proj/venvA''\<rparr>),
      currentVenv = Some (js ''./proj/venvA''),
      showWarningMessage = (\<lambda>question. Some (js ''Delete'')),
      fs_stat = (\<lambda>p. None), fs_delete = (\<lambda>p. None)\<rparr>"



section \<open>Facts about the string methods and the loop\<close>

lemma includes_js_single: "includes_js s [c] = (c \<in> set s)"
  by (induction s) auto

lemma isPathSafe_iff:
  "isPathSafe seg \<longleftrightarrow>
     seg \<noteq> [] \<and> \<not> includes_js seg (js ''..'') \<and> null_char \<notin> set seg \<and> seg \<noteq> js ''.''
       \<and> \<not> startsWith seg (js ''/'')"
  by (simp add: isPathSafe_def includes_js_single)

lemma split_from_takeWhile:
  "split_from sep cur s =
     (cur @ takeWhile (\<lambda>c. c \<noteq> sep) s) #
       (case dropWhile (\<lambda>c. c \<noteq> sep) s of [] \<Rightarrow> [] | _ # r \<Rightarrow> split_from sep [] r)"
  by (induction s arbitrary: cur) auto

lemma split_from_no_sep: "sep \<notin> set s \<Longrightarrow> split_from sep cur s = [cur @ s]"
  by (induction s arbitrary: cur) auto

lemma split_from_at_sep:
  "sep \<notin> set k \<Longrightarrow> split_from sep cur (k @ sep # rest) = (cur @ k) # split_from sep [] rest"
  by (induction k arbitrary: cur) auto

lemma length_split_from:
  "length (split_from sep cur s) = Suc (length (filter (\<lambda>c. c = sep) s))"
  by (induction s arbitrary: cur) auto

lemma startsWith_imp_set: "startsWith s sub \<Longrightarrow> set sub \<subseteq> set s"
  by (induction s sub rule: startsWith.induct) auto

lemma startsWith_append: "startsWith s sub \<longleftrightarrow> (\<exists>t. s = sub @ t)"
  by (induction s sub rule: startsWith.induct) auto

lemma includes_js_iff: "includes_js s sub \<longleftrightarrow> (\<exists>a b. s = a @ sub @ b)"
proof (induction s)
  case Nil
  show ?case by (cases sub) auto
next
  case (Cons c cs)
  show ?case
  proof
    assume "includes_js (c # cs) sub"
    then consider "startsWith (c # cs) sub" | "includes_js cs sub" by auto
    then show "\<exists>a b. c # cs = a @ sub @ b"
    proof cases
      case 1
      then obtain t where "c # cs = sub @ t" by (auto simp: startsWith_append)
      then have "c # cs = [] @ sub @ t" by simp
      then show ?thesis by blast
    next
      case 2
      then obtain a b where "cs = a @ sub @ b" using Cons.IH by blast
      then have "c # cs = (c # a) @ sub @ b" by simp
      then show ?thesis by blast
    qed
  next
    assume "\<exists>a b. c # cs = a @ sub @ b"
    then obtain a b where ab: "c # cs = a @ sub @ b" by blast
    show "includes_js (c # cs) sub"
    proof (cases a)
      case Nil
      with ab have "startsWith (c # cs) sub" by (auto simp: startsWith_append)
      then show ?thesis by simp
    next
      case (Cons x a')
      with ab have "cs = a' @ sub @ b" by simp
      then have "includes_js cs sub" using Cons.IH by blast
      then show ?thesis by simp
    qed
  qed
qed

lemma includes_js_imp_set: "includes_js s sub \<Longrightarrow> set sub \<subseteq> set s"
  by (auto simp: includes_js_iff)


lemma equals_sign_in_key: "equals_sign \<in> set (js ''RUYI_VENV_PROMPT='')"
  by (simp add: js_def equals_sign_def)

lemma promptLine_Some_includes:
  "promptLine content = Some line \<Longrightarrow>
     line \<in> set (split line_feed content) \<and> includes_js line (js ''RUYI_VENV_PROMPT='')"
  by (auto simp: promptLine_def find_Some_iff)


lemma includes_key_index:
  assumes "includes_js line (js ''RUYI_VENV_PROMPT='')"
  shows "line \<noteq> [] \<and> (\<exists>piece. index (split equals_sign line) 1 = Some piece)"
proof -
  have "equals_sign \<in> set line"
    using includes_js_imp_set [OF assms] equals_sign_in_key by blast
  then have "filter (\<lambda>c. c = equals_sign) line \<noteq> []"
    by (auto simp: filter_empty_conv)
  then have "1 < length (split equals_sign line)"
    by (cases "filter (\<lambda>c. c = equals_sign) line") (auto simp: split_def length_split_from)
  moreover have "line \<noteq> []"
    using \<open>equals_sign \<in> set line\<close> by auto
  ultimately show ?thesis
    by (simp add: index_def)
qed

lemma check_dir_unsafe:
  "\<not> list_all isPathSafe (split slash dir) \<Longrightarrow>
     check_dir e ws dir st =
       Inr (st\<lparr>console := console st @ [ConsoleWarn (js ''Skipping unsafe path: '' @ dir)]\<rparr>)"
  by (simp add: check_dir_def)




lemma check_dir_record:
  "list_all isPathSafe (split slash dir) \<Longrightarrow> existsSync e (activatePath e ws dir) \<Longrightarrow>
     readFileSync e (activatePath e ws dir) = Inr content \<Longrightarrow> promptLine content = Some line \<Longrightarrow>
     index (split equals_sign line) 1 = Some piece \<Longrightarrow>
     check_dir e ws dir st = Inr (st\<lparr>foundVenvs := foundVenvs st @ [[dir, trim piece]]\<rparr>)"
  using includes_key_index [of line] promptLine_Some_includes [of content line]
  by (simp add: check_dir_def)


lemma check_dir_found:
  "check_dir e ws dir st = Inr st' \<Longrightarrow> v \<in> set (foundVenvs st') \<Longrightarrow>
     v \<in> set (foundVenvs st) \<or>
     (\<exists>label. v = [dir, label] \<and> list_all isPathSafe (split slash dir) \<and>
        existsSync e (activatePath e ws dir))"
  by (auto simp: check_dir_def split: if_splits sum.splits option.splits)

lemma for_dirs_found:
  "for_dirs e ws dirs st = (r, st') \<Longrightarrow> v \<in> set (foundVenvs st') \<Longrightarrow>
     v \<in> set (foundVenvs st) \<or>
     (\<exists>dir label. v = [dir, label] \<and> dir \<in> set dirs \<and> list_all isPathSafe (split slash dir) \<and>
        existsSync e (activatePath e ws dir))"
proof (induction dirs arbitrary: st)
  case Nil
  then show ?case by simp
next
  case (Cons dir dirs)
  show ?case
  proof (cases "check_dir e ws dir st")
    case (Inl ex)
    with Cons.prems show ?thesis by simp
  next
    case (Inr st1)
    with Cons.prems have "for_dirs e ws dirs st1 = (r, st')" by simp
    from Cons.IH [OF this Cons.prems(2)] check_dir_found [OF Inr]
    show ?thesis by fastforce
  qed
qed

lemma detectVenv_found:
  assumes "detectVenv e = Inr (venvs, logs)" and "v \<in> set venvs"
  shows "\<exists>ws ents dir label. getWorkspaceFolderPath e = Inr ws \<and> readdirSync e ws = Inr ents \<and>
           v = [dir, label] \<and> dir \<in> set (allDirsToCheck e ws ents) \<and>
           list_all isPathSafe (split slash dir) \<and> existsSync e (activatePath e ws dir)"
proof (cases "getWorkspaceFolderPath e")
  case (Inl ex)
  with assms show ?thesis by (simp add: detectVenv_def try_block_def)
next
  case ws: (Inr ws)
  show ?thesis
  proof (cases "readdirSync e ws")
    case (Inl ex)
    with ws assms show ?thesis by (simp add: detectVenv_def try_block_def)
  next
    case ents: (Inr ents)
    obtain r st' where run:
      "for_dirs e ws (allDirsToCheck e ws ents)
         \<lparr>foundVenvs = [], console = snd (subSubdirectories e ws (subdirectories ents))\<rparr> = (r, st')"
      by (cases "for_dirs e ws (allDirsToCheck e ws ents)
         \<lparr>foundVenvs = [], console = snd (subSubdirectories e ws (subdirectories ents))\<rparr>")
    with ws ents assms have "venvs = foundVenvs st'"
      by (cases r) (auto simp: detectVenv_def try_block_def)
    with assms(2) for_dirs_found [OF run, of v] ws ents show ?thesis by auto
  qed
qed


lemma index_split_second:
  assumes "sep \<notin> set k"
  shows "index (split sep (k @ sep # rest)) 1 = Some (takeWhile (\<lambda>c. c \<noteq> sep) rest)"
proof -
  have "split sep (k @ sep # rest) = k # split_from sep [] rest"
    using split_from_at_sep [OF assms, of "[]" rest] by (simp add: split_def)
  moreover obtain tl where "split_from sep [] rest = takeWhile (\<lambda>c. c \<noteq> sep) rest # tl"
    using split_from_takeWhile [of sep "[]" rest] by simp
  ultimately show ?thesis by (simp add: index_def)
qed


lemma subSubdirectories_fst:
  "fst (subSubdirectories e ws ss) = concat (map (\<lambda>s. fst (list_subdir e ws s)) ss)"
  by (induction ss) (auto split: prod.splits)


lemma fst_list_subdir:
  "fst (list_subdir e ws d1) =
     (case readdirSync e (path_join e [ws, d1]) of
        Inl ex \<Rightarrow> []
      | Inr ents2 \<Rightarrow> map (\<lambda>d2. d1 @ js ''/'' @ d2) (subdirectories ents2))"
  by (simp add: list_subdir_def subdirectories_def comp_def split: sum.splits)

lemma js_slash: "js ''/'' = [slash]"
  by (simp add: js_def slash_def)

lemma split_one_segment: "slash \<notin> set n \<Longrightarrow> split slash n = [n]"
  by (simp add: split_def split_from_no_sep)

lemma split_two_segments:
  "slash \<notin> set a \<Longrightarrow> slash \<notin> set b \<Longrightarrow> split slash (a @ js ''/'' @ b) = [a, b]"
  using split_from_at_sep [of slash a "[]" b]
  by (simp add: split_def js_slash split_from_no_sep)

lemma subdirectories_mem:
  "n \<in> set (subdirectories ents) \<Longrightarrow> \<exists>d \<in> set ents. n = name d"
  by (auto simp: subdirectories_def)

lemma allDirsToCheck_depth:
  assumes names: "\<forall>p es. readdirSync e p = Inr es \<longrightarrow> (\<forall>d \<in> set es. slash \<notin> set (name d))"
    and ents: "readdirSync e ws = Inr ents"
    and dir: "dir \<in> set (allDirsToCheck e ws ents)"
  shows "length (split slash dir) \<le> 2"
proof -
  from dir consider "dir \<in> set (subdirectories ents)"
    | d1 where "d1 \<in> set (subdirectories ents)" "dir \<in> set (fst (list_subdir e ws d1))"
    by (auto simp: allDirsToCheck_def subSubdirectories_fst)
  then show ?thesis
  proof cases
    case 1
    then have "slash \<notin> set dir"
      using names ents subdirectories_mem by blast
    then show ?thesis by (simp add: split_one_segment)
  next
    case 2
    from 2(1) have d1: "slash \<notin> set d1"
      using names ents subdirectories_mem by blast
    show ?thesis
    proof (cases "readdirSync e (path_join e [ws, d1])")
      case (Inl ex)
      with 2(2) show ?thesis by (simp add: fst_list_subdir)
    next
      case (Inr ents2)
      with 2(2) obtain d2 where d2: "d2 \<in> set (subdirectories ents2)"
        and eq: "dir = d1 @ js ''/'' @ d2"
        by (auto simp: fst_list_subdir)
      from d2 Inr have "slash \<notin> set d2"
        using names subdirectories_mem by blast
      with d1 eq show ?thesis by (simp add: split_two_segments)
    qed
  qed
qed

lemma check_dir_readdirSync_update [simp]:
  "check_dir (e\<lparr>readdirSync := f\<rparr>) ws dir st = check_dir e ws dir st"
  by (simp add: check_dir_def activatePath_def)

lemma for_dirs_readdirSync_update [simp]:
  "for_dirs (e\<lparr>readdirSync := f\<rparr>) ws dirs st = for_dirs e ws dirs st"
  by (induction dirs arbitrary: st) (simp_all split: sum.splits)

lemma subSubdirectories_cong:
  "\<forall>d1 \<in> set ss. f (path_join e [ws, d1]) = readdirSync e (path_join e [ws, d1]) \<Longrightarrow>
     subSubdirectories (e\<lparr>readdirSync := f\<rparr>) ws ss = subSubdirectories e ws ss"
  by (induction ss) (simp_all add: list_subdir_def)

lemma detectVenv_readdirSync_update:
  assumes "getWorkspaceFolderPath e = Inr ws" and "readdirSync e ws = Inr ents"
    and "f ws = readdirSync e ws"
    and "\<forall>d1 \<in> set (subdirectories ents). f (path_join e [ws, d1]) = readdirSync e (path_join e [ws, d1])"
  shows "detectVenv (e\<lparr>readdirSync := f\<rparr>) = detectVenv e"
  using assms subSubdirectories_cong [OF assms(4)]
  by (simp add: detectVenv_def try_block_def allDirsToCheck_def)














text \<open>The scan of the example workspace.\<close>

lemma demo_result:
  "detectVenv demo_env =
     Inr ([[js ''env1'', js ''myenv''], [js ''proj/venvA'', js ''spaced'']],
          [ConsoleWarn (js ''[Warning] Failed to read locked: Error: EACCES: permission denied''),
           ConsoleWarn (js ''Skipping unsafe path: a..b'')])"
  by code_simp

lemma demo_names_have_no_slash:
  "\<forall>p es. readdirSync demo_env p = Inr es \<longrightarrow> (\<forall>d \<in> set es. slash \<notin> set (name d))"
proof (intro allI impI ballI)
  fix p es d
  assume "readdirSync demo_env p = Inr es" and "d \<in> set es"
  then have "d \<in> set [dir_entry ''proj'', dir_entry ''locked'', file_entry ''README.md'',
      dir_entry ''a..b'', dir_entry ''env1'', dir_entry ''venvA'', file_entry ''notes.txt'',
      dir_entry ''venvB'', dir_entry ''bin'']"
    by (auto simp: demo_env_def demo_readdir_def split: if_splits)
  then show "slash \<notin> set (name d)"
    by (auto simp: dir_entry_def file_entry_def js_def slash_def)
qed

section \<open>The claims\<close>

text \<open>
  C7. \<^verbatim>\<open>detectVenv\<close> never raises to its caller: for every behaviour of its collaborators
  the call returns a list; and when listing the root directory fails, one error is logged
  and the list is empty.
\<close>

theorem C7_detectVenv_never_raises:
  "(\<exists>venvs logs. detectVenv e = Inr (venvs, logs)) \<and>
   (\<forall>ws ex. getWorkspaceFolderPath e = Inr ws \<longrightarrow> readdirSync e ws = Inl ex \<longrightarrow>
      detectVenv e = Inr ([], [ConsoleError (js ''[Error] Failed to detect venvs: '' @ to_string ex)]))"
proof
  obtain r st where "try_block e \<lparr>foundVenvs = [], console = []\<rparr> = (r, st)"
    by (cases "try_block e \<lparr>foundVenvs = [], console = []\<rparr>")
  then show "\<exists>venvs logs. detectVenv e = Inr (venvs, logs)"
    by (cases r) (simp_all add: detectVenv_def)
next
  show "\<forall>ws ex. getWorkspaceFolderPath e = Inr ws \<longrightarrow> readdirSync e ws = Inl ex \<longrightarrow>
      detectVenv e = Inr ([], [ConsoleError (js ''[Error] Failed to detect venvs: '' @ to_string ex)])"
    by (simp add: detectVenv_def try_block_def)
qed

theorem C7_unlistable_root_witness:
  "getWorkspaceFolderPath unlistable_env = Inr (js ''/ws'') \<and>
   readdirSync unlistable_env (js ''/ws'') = Inl EACCES \<and>
   detectVenv unlistable_env =
     Inr ([], [ConsoleError (js ''[Error] Failed to detect venvs: Error: EACCES: permission denied'')])"
  using C7_detectVenv_never_raises [of unlistable_env]
  by (simp add: unlistable_env_def demo_env_def EACCES_def js_def)

text \<open>
  C9. If the workspace-root resolver throws, \<^verbatim>\<open>detectVenv\<close> does not propagate the
  failure: the top-level handler logs one error and the empty list is returned.
\<close>

theorem C9_resolver_failure_is_caught:
  "getWorkspaceFolderPath e = Inl ex \<Longrightarrow>
     detectVenv e = Inr ([], [ConsoleError (js ''[Error] Failed to detect venvs: '' @ to_string ex)])"
  by (simp add: detectVenv_def try_block_def)

theorem C9_no_workspace_witness:
  "getWorkspaceFolderPath no_workspace_env = Inl no_workspace \<and>
   detectVenv no_workspace_env =
     Inr ([], [ConsoleError (js ''[Error] Failed to detect venvs: Error: No workspace folder is open'')])"
  using C9_resolver_failure_is_caught [of no_workspace_env no_workspace]
  by (simp add: no_workspace_env_def no_workspace_def js_def)

text \<open>
  C3. Every record returned by the scan has a relative path all of whose segments between
  slashes are safe: no segment is empty, contains two dots in a row, contains a null
  character, is a single dot, or begins with a slash. A candidate with an unsafe segment is
  skipped with one warning and no exception, whatever lies under it, and so never appears
  in the result.
\<close>

theorem C3_returned_paths_have_safe_segments:
  "(\<forall>venvs logs r. detectVenv e = Inr (venvs, logs) \<longrightarrow> r \<in> set venvs \<longrightarrow>
      (\<exists>dir label. r = [dir, label] \<and>
         (\<forall>seg \<in> set (split slash dir).
            seg \<noteq> [] \<and> \<not> includes_js seg (js ''..'') \<and> null_char \<notin> set seg \<and> seg \<noteq> js ''.''
              \<and> \<not> startsWith seg (js ''/'')))) \<and>
   (\<forall>ws dir st.
      (\<exists>seg \<in> set (split slash dir).
         seg = [] \<or> includes_js seg (js ''..'') \<or> null_char \<in> set seg \<or> seg = js ''.''
           \<or> startsWith seg (js ''/'')) \<longrightarrow>
      check_dir e ws dir st =
        Inr (st\<lparr>console := console st @ [ConsoleWarn (js ''Skipping unsafe path: '' @ dir)]\<rparr>))"
proof (intro conjI allI impI)
  fix venvs logs r
  assume "detectVenv e = Inr (venvs, logs)" and "r \<in> set venvs"
  from detectVenv_found [OF this] obtain dir label
    where "r = [dir, label]" and "list_all isPathSafe (split slash dir)" by blast
  then show "\<exists>dir label. r = [dir, label] \<and>
         (\<forall>seg \<in> set (split slash dir).
            seg \<noteq> [] \<and> \<not> includes_js seg (js ''..'') \<and> null_char \<notin> set seg \<and> seg \<noteq> js ''.''
              \<and> \<not> startsWith seg (js ''/''))"
    by (auto simp: list_all_iff isPathSafe_iff)
next
  fix ws dir st
  assume "\<exists>seg \<in> set (split slash dir).
         seg = [] \<or> includes_js seg (js ''..'') \<or> null_char \<in> set seg \<or> seg = js ''.''
           \<or> startsWith seg (js ''/'')"
  then have "\<not> list_all isPathSafe (split slash dir)"
    by (auto simp: list_all_iff isPathSafe_iff)
  then show "check_dir e ws dir st =
        Inr (st\<lparr>console := console st @ [ConsoleWarn (js ''Skipping unsafe path: '' @ dir)]\<rparr>)"
    by (rule check_dir_unsafe)
qed

theorem C3_demo_workspace_witness:
  "detectVenv demo_env =
     Inr ([[js ''env1'', js ''myenv''], [js ''proj/venvA'', js ''spaced'']],
          [ConsoleWarn (js ''[Warning] Failed to read locked: Error: EACCES: permission denied''),
           ConsoleWarn (js ''Skipping unsafe path: a..b'')]) \<and>
   list_all (\<lambda>seg. seg \<noteq> [] \<and> \<not> includes_js seg (js ''..'') \<and> null_char \<notin> set seg \<and> seg \<noteq> js ''.''
              \<and> \<not> startsWith seg (js ''/'')) (split slash (js ''proj/venvA'')) \<and>
   includes_js (js ''a..b'') (js ''..'') \<and>
   check_dir demo_env (js ''/ws'') (js ''a..b'') \<lparr>foundVenvs = [], console = []\<rparr> =
     Inr \<lparr>foundVenvs = [], console = [ConsoleWarn (js ''Skipping unsafe path: a..b'')]\<rparr>"
proof -
  let ?r = "[js ''proj/venvA'', js ''spaced'']"
  have mem: "?r \<in> set [[js ''env1'', js ''myenv''], ?r]" by simp
  from C3_returned_paths_have_safe_segments [of demo_env, THEN conjunct1, rule_format, OF demo_result mem]
  obtain dir label where "?r = [dir, label]"
    and "\<forall>seg \<in> set (split slash dir).
            seg \<noteq> [] \<and> \<not> includes_js seg (js ''..'') \<and> null_char \<notin> set seg \<and> seg \<noteq> js ''.''
              \<and> \<not> startsWith seg (js ''/'')"
    by (elim exE conjE)
  then have safe: "list_all (\<lambda>seg. seg \<noteq> [] \<and> \<not> includes_js seg (js ''..'') \<and> null_char \<notin> set seg \<and> seg \<noteq> js ''.''
              \<and> \<not> startsWith seg (js ''/'')) (split slash (js ''proj/venvA''))"
    by (simp add: list_all_iff)
  have unsafe: "includes_js (js ''a..b'') (js ''..'')" by (simp add: js_def)
  have seg: "js ''a..b'' \<in> set (split slash (js ''a..b''))"
    by (simp add: split_def js_def slash_def)
  have "\<exists>seg \<in> set (split slash (js ''a..b'')).
         seg = [] \<or> includes_js seg (js ''..'') \<or> null_char \<in> set seg \<or> seg = js ''.''
           \<or> startsWith seg (js ''/'')"
    using seg unsafe by (intro bexI [of _ "js ''a..b''"] disjI2 disjI1)
  from C3_returned_paths_have_safe_segments [of demo_env, THEN conjunct2, rule_format, OF this]
  have "check_dir demo_env (js ''/ws'') (js ''a..b'') \<lparr>foundVenvs = [], console = []\<rparr> =
     Inr (\<lparr>foundVenvs = [], console = []\<rparr>\<lparr>console := console \<lparr>foundVenvs = [], console = []\<rparr> @
        [ConsoleWarn (js ''Skipping unsafe path: '' @ js ''a..b'')]\<rparr>)" .
  then have skipped: "check_dir demo_env (js ''/ws'') (js ''a..b'') \<lparr>foundVenvs = [], console = []\<rparr> =
     Inr \<lparr>foundVenvs = [], console = [ConsoleWarn (js ''Skipping unsafe path: a..b'')]\<rparr>"
    by (simp add: js_def)
  show ?thesis
    by (intro conjI demo_result safe unsafe skipped)
qed




text \<open>
  C10. If the first line of the marker file containing the key has nothing between its
  first equals sign and its second one (or its end), a record is still appended for the
  candidate, with the empty string as label.
\<close>

theorem C10_empty_value_gives_empty_label:
  assumes "list_all isPathSafe (split slash dir)"
    and "existsSync e (activatePath e ws dir)"
    and "readFileSync e (activatePath e ws dir) = Inr content"
    and "promptLine content = Some (k @ equals_sign # rest)"
    and "equals_sign \<notin> set k"
    and "rest = [] \<or> (\<exists>r. rest = equals_sign # r)"
  shows "check_dir e ws dir st = Inr (st\<lparr>foundVenvs := foundVenvs st @ [[dir, []]]\<rparr>)"
proof -
  from assms(6) have "takeWhile (\<lambda>c. c \<noteq> equals_sign) rest = []" by auto
  with index_split_second [OF assms(5), of rest]
  have "index (split equals_sign (k @ equals_sign # rest)) 1 = Some []" by simp
  from check_dir_record [OF assms(1-4) this] show ?thesis
    by (simp add: trim_def)
qed

theorem C10_bare_key_witness:
  "list_all isPathSafe (split slash (js ''venv'')) \<and>
   existsSync (one_venv_env (js ''RUYI_VENV_PROMPT='')) (js ''/ws/venv/bin/ruyi-activate'') \<and>
   readFileSync (one_venv_env (js ''RUYI_VENV_PROMPT='')) (js ''/ws/venv/bin/ruyi-activate'') =
     Inr (js ''RUYI_VENV_PROMPT='') \<and>
   promptLine (js ''RUYI_VENV_PROMPT='') = Some (js ''RUYI_VENV_PROMPT='') \<and>
   equals_sign \<notin> set (js ''RUYI_VENV_PROMPT'') \<and>
   check_dir (one_venv_env (js ''RUYI_VENV_PROMPT='')) (js ''/ws'') (js ''venv'')
       \<lparr>foundVenvs = [], console = []\<rparr> =
     Inr \<lparr>foundVenvs = [[js ''venv'', []]], console = []\<rparr> \<and>
   detectVenv (one_venv_env (js ''RUYI_VENV_PROMPT='')) = Inr ([[js ''venv'', []]], [])"
proof -
  let ?e = "one_venv_env (js ''RUYI_VENV_PROMPT='')"
  let ?st = "\<lparr>foundVenvs = [], console = []\<rparr>"
  have path: "activatePath ?e (js ''/ws'') (js ''venv'') = js ''/ws/venv/bin/ruyi-activate''"
    by code_simp
  have safe: "list_all isPathSafe (split slash (js ''venv''))" by code_simp
  have ex: "existsSync ?e (js ''/ws/venv/bin/ruyi-activate'')" by code_simp
  have rd: "readFileSync ?e (js ''/ws/venv/bin/ruyi-activate'') = Inr (js ''RUYI_VENV_PROMPT='')"
    by code_simp
  have line: "promptLine (js ''RUYI_VENV_PROMPT='') = Some (js ''RUYI_VENV_PROMPT='')"
    by code_simp
  have shape: "js ''RUYI_VENV_PROMPT='' = js ''RUYI_VENV_PROMPT'' @ equals_sign # []"
    by code_simp
  have k: "equals_sign \<notin> set (js ''RUYI_VENV_PROMPT'')"
    by (simp add: js_def equals_sign_def)
  have "check_dir ?e (js ''/ws'') (js ''venv'') ?st = Inr (?st\<lparr>foundVenvs := foundVenvs ?st @ [[js ''venv'', []]]\<rparr>)"
    using C10_empty_value_gives_empty_label [of "js ''venv''" ?e "js ''/ws''" "js ''RUYI_VENV_PROMPT=''" "js ''RUYI_VENV_PROMPT''" "[]" ?st]
      safe ex rd line k
    by (simp only: path shape [symmetric] simp_thms)
  then have r: "check_dir ?e (js ''/ws'') (js ''venv'') ?st = Inr \<lparr>foundVenvs = [[js ''venv'', []]], console = []\<rparr>"
    by simp
  have whole: "detectVenv ?e = Inr ([[js ''venv'', []]], [])" by code_simp
  show ?thesis by (intro conjI safe ex rd line k r whole)
qed

text \<open>
  C2. The claim takes the label to be everything after the first equals sign of the line, so
  that the line \<^verbatim>\<open>RUYI_VENV_PROMPT=a=b\<close> has the label \<^verbatim>\<open>a=b\<close>. The scan of a
  workspace whose marker file holds that line returns the label \<^verbatim>\<open>a\<close>: the source
  takes \<^verbatim>\<open>split('=')[1]\<close>, the piece between the first and the second equals sign.
  The trimming the claim describes does happen: the value \<^verbatim>\<open>  spaced  \<close> gives the
  label \<^verbatim>\<open>spaced\<close>.
\<close>

theorem C2_label_ends_at_second_equals_sign:
  "detectVenv (one_venv_env (js ''RUYI_VENV_PROMPT=a=b'')) = Inr ([[js ''venv'', js ''a'']], []) \<and>
   js ''a'' \<noteq> js ''a=b'' \<and>
   detectVenv (one_venv_env (js ''RUYI_VENV_PROMPT=  spaced  '' @ [line_feed])) =
     Inr ([[js ''venv'', js ''spaced'']], [])"
proof (intro conjI)
  show "detectVenv (one_venv_env (js ''RUYI_VENV_PROMPT=a=b'')) = Inr ([[js ''venv'', js ''a'']], [])"
    by code_simp
  show "js ''a'' \<noteq> js ''a=b''"
    by (simp add: js_def)
  show "detectVenv (one_venv_env (js ''RUYI_VENV_PROMPT=  spaced  '' @ [line_feed])) =
     Inr ([[js ''venv'', js ''spaced'']], [])"
    by code_simp
qed




text \<open>
  C4. The candidates are exactly the directory entries directly under the root and, named
  \<^verbatim>\<open><depth1>/<depth2>\<close>, the directory entries under those; every returned record is
  one of these candidates; the result does not depend on the listing of any other path, so
  nothing deeper is read; and, directory entry names having no slash, every returned
  relative path has at most two components.
\<close>

theorem C4_candidates_have_depth_one_or_two:
  "(\<forall>ws ents. getWorkspaceFolderPath e = Inr ws \<longrightarrow> readdirSync e ws = Inr ents \<longrightarrow>
      allDirsToCheck e ws ents =
        subdirectories ents @
        concat (map (\<lambda>d1. case readdirSync e (path_join e [ws, d1]) of
                            Inl ex \<Rightarrow> []
                          | Inr ents2 \<Rightarrow> map (\<lambda>d2. d1 @ js ''/'' @ d2) (subdirectories ents2))
                  (subdirectories ents)) \<and>
      (\<forall>venvs logs r. detectVenv e = Inr (venvs, logs) \<longrightarrow> r \<in> set venvs \<longrightarrow>
         (\<exists>dir label. r = [dir, label] \<and> dir \<in> set (allDirsToCheck e ws ents))) \<and>
      (\<forall>f. f ws = readdirSync e ws \<longrightarrow>
         (\<forall>d1 \<in> set (subdirectories ents).
            f (path_join e [ws, d1]) = readdirSync e (path_join e [ws, d1])) \<longrightarrow>
         detectVenv (e\<lparr>readdirSync := f\<rparr>) = detectVenv e)) \<and>
   ((\<forall>p es. readdirSync e p = Inr es \<longrightarrow> (\<forall>d \<in> set es. slash \<notin> set (name d))) \<longrightarrow>
      (\<forall>venvs logs r. detectVenv e = Inr (venvs, logs) \<longrightarrow> r \<in> set venvs \<longrightarrow>
         (\<exists>dir label. r = [dir, label] \<and> length (split slash dir) \<le> 2)))"
proof (intro conjI allI impI)
  fix ws ents
  show "allDirsToCheck e ws ents =
        subdirectories ents @
        concat (map (\<lambda>d1. case readdirSync e (path_join e [ws, d1]) of
                            Inl ex \<Rightarrow> []
                          | Inr ents2 \<Rightarrow> map (\<lambda>d2. d1 @ js ''/'' @ d2) (subdirectories ents2))
                  (subdirectories ents))"
    by (simp add: allDirsToCheck_def subSubdirectories_fst fst_list_subdir)
next
  fix ws ents venvs logs r
  assume ws: "getWorkspaceFolderPath e = Inr ws" and ents: "readdirSync e ws = Inr ents"
    and "detectVenv e = Inr (venvs, logs)" and "r \<in> set venvs"
  from detectVenv_found [OF this(3,4)] ws ents
  show "\<exists>dir label. r = [dir, label] \<and> dir \<in> set (allDirsToCheck e ws ents)"
    by auto
next
  fix ws ents f
  assume "getWorkspaceFolderPath e = Inr ws" and "readdirSync e ws = Inr ents"
    and "f ws = readdirSync e ws"
    and "\<forall>d1 \<in> set (subdirectories ents).
            f (path_join e [ws, d1]) = readdirSync e (path_join e [ws, d1])"
  then show "detectVenv (e\<lparr>readdirSync := f\<rparr>) = detectVenv e"
    by (rule detectVenv_readdirSync_update)
next
  fix venvs logs r
  assume names: "\<forall>p es. readdirSync e p = Inr es \<longrightarrow> (\<forall>d \<in> set es. slash \<notin> set (name d))"
    and "detectVenv e = Inr (venvs, logs)" and "r \<in> set venvs"
  from detectVenv_found [OF this(2,3)] obtain ws ents dir label
    where "readdirSync e ws = Inr ents" and "r = [dir, label]"
      and "dir \<in> set (allDirsToCheck e ws ents)"
    by blast
  with allDirsToCheck_depth [OF names]
  show "\<exists>dir label. r = [dir, label] \<and> length (split slash dir) \<le> 2"
    by blast
qed

theorem C4_demo_workspace_witness:
  "getWorkspaceFolderPath demo_env = Inr (js ''/ws'') \<and>
   readdirSync demo_env (js ''/ws'') =
     Inr [dir_entry ''proj'', dir_entry ''locked'', file_entry ''README.md'',
          dir_entry ''a..b'', dir_entry ''env1''] \<and>
   allDirsToCheck demo_env (js ''/ws'')
       [dir_entry ''proj'', dir_entry ''locked'', file_entry ''README.md'',
        dir_entry ''a..b'', dir_entry ''env1''] =
     [js ''proj'', js ''locked'', js ''a..b'', js ''env1'',
      js ''proj/venvA'', js ''proj/venvB'', js ''env1/bin''] \<and>
   deeper_readdir (js ''/ws/proj/venvA'') \<noteq> readdirSync demo_env (js ''/ws/proj/venvA'') \<and>
   detectVenv (demo_env\<lparr>readdirSync := deeper_readdir\<rparr>) = detectVenv demo_env \<and>
   [js ''proj/venvA'', js ''spaced''] \<in> set (fst (projr (detectVenv demo_env))) \<and>
   length (split slash (js ''proj/venvA'')) \<le> 2"
proof -
  let ?ents = "[dir_entry ''proj'', dir_entry ''locked'', file_entry ''README.md'',
          dir_entry ''a..b'', dir_entry ''env1'']"
  let ?r = "[js ''proj/venvA'', js ''spaced'']"
  have ws: "getWorkspaceFolderPath demo_env = Inr (js ''/ws'')" by code_simp
  have ents: "readdirSync demo_env (js ''/ws'') = Inr ?ents" by code_simp
  note first = C4_candidates_have_depth_one_or_two [of demo_env, THEN conjunct1, rule_format, OF ws ents]
  have subs: "subdirectories ?ents = [js ''proj'', js ''locked'', js ''a..b'', js ''env1'']"
    by code_simp
  have cands: "allDirsToCheck demo_env (js ''/ws'') ?ents =
     [js ''proj'', js ''locked'', js ''a..b'', js ''env1'',
      js ''proj/venvA'', js ''proj/venvB'', js ''env1/bin'']"
    unfolding first [THEN conjunct1] by code_simp
  have differs: "deeper_readdir (js ''/ws/proj/venvA'') \<noteq> readdirSync demo_env (js ''/ws/proj/venvA'')"
    by code_simp
  have root: "deeper_readdir (js ''/ws'') = readdirSync demo_env (js ''/ws'')" by code_simp
  have below: "\<forall>d1 \<in> set (subdirectories ?ents).
      deeper_readdir (path_join demo_env [js ''/ws'', d1]) =
      readdirSync demo_env (path_join demo_env [js ''/ws'', d1])"
    unfolding subs list.set ball_simps by (intro conjI; code_simp)
  have same: "detectVenv (demo_env\<lparr>readdirSync := deeper_readdir\<rparr>) = detectVenv demo_env"
    by (rule first [THEN conjunct2, THEN conjunct2, rule_format, OF root below [rule_format]])
  have mem: "?r \<in> set [[js ''env1'', js ''myenv''], ?r]" by simp
  then have mem': "?r \<in> set (fst (projr (detectVenv demo_env)))"
    by (simp add: demo_result)
  from C4_candidates_have_depth_one_or_two [of demo_env, THEN conjunct2] demo_names_have_no_slash
  have "\<forall>venvs logs r. detectVenv demo_env = Inr (venvs, logs) \<longrightarrow> r \<in> set venvs \<longrightarrow>
         (\<exists>dir label. r = [dir, label] \<and> length (split slash dir) \<le> 2)"
    by (rule mp)
  from this [rule_format, OF demo_result mem]
  obtain dir label where "?r = [dir, label]" and "length (split slash dir) \<le> 2"
    by (elim exE conjE)
  then have depth: "length (split slash (js ''proj/venvA'')) \<le> 2" by simp
  show ?thesis
    by (intro conjI ws ents cands differs same mem' depth)
qed




text \<open>
  C8. In the command \<^verbatim>\<open>ruyi.venv.clean\<close>, when the picked relative path with
  \<^verbatim>\<open>./\<close> put before it equals the currently active environment path, the handler
  shows the error message and makes no other call: the recursive delete is never invoked.
\<close>

theorem C8_active_venv_is_not_deleted:
  assumes "executeCommand_detect w = Inr (Some pickedVenv)"
    and "currentVenv w = Some (js ''./'' @ rawPath pickedVenv)"
  shows "clean_command w =
           (None, [ShowErrorMessage
                     (js ''Cannot delete the currently active Ruyi venv. Please deactivate it first.'')]) \<and>
         (\<forall>p. FsDelete p \<notin> set (snd (clean_command w)))"
  using assms by (simp add: clean_command_def)

theorem C8_active_session_witness:
  "executeCommand_detect active_session =
     Inr (Some \<lparr>label = js ''spaced'', description = js ''proj/venvA'', rawPath = js ''proj/venvA''\<rparr>) \<and>
   currentVenv active_session = Some (js ''./'' @ js ''proj/venvA'') \<and>
   clean_command active_session =
     (None, [ShowErrorMessage
               (js ''Cannot delete the currently active Ruyi venv. Please deactivate it first.'')]) \<and>
   FsDelete (js ''/ws/proj/venvA'') \<notin> set (snd (clean_command active_session)) \<and>
   FsDelete (js ''/ws/proj/venvA'') \<in> set (snd (clean_command (active_session\<lparr>currentVenv := None\<rparr>)))"
proof -
  let ?item = "\<lparr>label = js ''spaced'', description = js ''proj/venvA'', rawPath = js ''proj/venvA''\<rparr>"
  have picked: "executeCommand_detect active_session = Inr (Some ?item)"
    by (simp add: active_session_def)
  have active: "currentVenv active_session = Some (js ''./'' @ rawPath ?item)"
    by (simp add: active_session_def js_def)
  note refused = C8_active_venv_is_not_deleted [OF picked active]
  have active': "currentVenv active_session = Some (js ''./'' @ js ''proj/venvA'')"
    using active by simp
  have never: "FsDelete (js ''/ws/proj/venvA'') \<notin> set (snd (clean_command active_session))"
    using refused [THEN conjunct2] by (rule spec)
  have otherwise:
    "FsDelete (js ''/ws/proj/venvA'') \<in> set (snd (clean_command (active_session\<lparr>currentVenv := None\<rparr>)))"
    by code_simp
  show ?thesis
    by (intro conjI picked active' refused [THEN conjunct1] never otherwise)
qed

end
